theory Spec2Isabelle
  imports Complex_Main "HOL-Library.Multiset"
begin

section \<open>Data model of \<open>src/main.ts\<close>\<close>

text \<open>
  The interfaces \<open>Article\<close>, \<open>EnrichedArticle\<close>, \<open>SimilarityAnalysis\<close> and \<open>Diff\<close>
  of \<open>main.ts\<close> (lines 9 to 43). A JavaScript string is a sequence of code units, here a
  \<open>string\<close>; \<open>string | null\<close> is a \<open>string option\<close> with \<open>None\<close> for \<open>null\<close>. The object
  stored under \<open>similarTo\<close> has the shape of \<open>SimilarityAnalysis\<close>, whose field \<open>title\<close>
  is named \<open>sim_title\<close> here because \<open>Article\<close> already has a field \<open>title\<close>.
\<close>

record SimilarityAnalysis =
  sim_title :: "string option"
  reason :: string

record Article =
  title :: string
  summary :: string
  category :: string
  takeaways :: "string list"

record EnrichedArticle = Article +
  similarTo :: SimilarityAnalysis

text \<open>
  The values of type \<open>unknown\<close> that \<open>generateDiff\<close> stores under \<open>before\<close> and \<open>after\<close>:
  a string, \<open>null\<close>, or an array of strings.
\<close>

datatype jsvalue = JNull | JString string | JArray "string list"

record change =
  before :: jsvalue
  after :: jsvalue

text \<open>
  An object literal built by assignments \<open>obj[k] = v\<close> is an association list in insertion
  order: assigning to a key that is present replaces its value in place, assigning to a new
  key appends it.
\<close>

type_synonym 'v object = "(string \<times> 'v) list"

fun assign :: "string \<Rightarrow> 'v \<Rightarrow> 'v object \<Rightarrow> 'v object" where
  "assign k v [] = [(k, v)]"
| "assign k v ((k', v') # ps) = (if k' = k then (k, v) # ps else (k', v') # assign k v ps)"

definition Object_keys :: "'v object \<Rightarrow> string list" where
  "Object_keys obj = map fst obj"

datatype entry = Leaf change | Nested "change object"

record Diff =
  changed :: "entry object"

section \<open>The diff engine\<close>

text \<open>
  \<open>xs[i]\<close> on an array is \<open>undefined\<close> (\<open>None\<close>) out of range, and
  \<open>xs.every((val, idx) => p)\<close> tests every element together with its index.
\<close>

definition js_index :: "'a list \<Rightarrow> nat \<Rightarrow> 'a option" where
  "js_index xs i = (if i < length xs then Some (xs ! i) else None)"

definition every :: "('a \<Rightarrow> nat \<Rightarrow> bool) \<Rightarrow> 'a list \<Rightarrow> bool" where
  "every p xs = list_all (\<lambda>(val, idx). p val idx) (zip xs [0..<length xs])"

definition primitiveFields :: "string list" where
  "primitiveFields = [''title'', ''summary'', ''category'']"

text \<open>\<open>output[field]\<close> for a \<open>field\<close> of \<open>primitiveFields\<close>.\<close>

definition get_field :: "EnrichedArticle \<Rightarrow> string \<Rightarrow> string" where
  "get_field output field =
     (if field = ''title'' then title output
      else if field = ''summary'' then summary output
      else category output)"

definition of_title :: "string option \<Rightarrow> jsvalue" where
  "of_title t = (case t of None \<Rightarrow> JNull | Some s \<Rightarrow> JString s)"

text \<open>\<open>generateDiff\<close> of \<open>src/main.ts\<close>, lines 189 to 244.\<close>

definition generateDiff :: "EnrichedArticle \<Rightarrow> EnrichedArticle \<Rightarrow> Diff" where
  "generateDiff oldOutput newOutput =
     (let changed0 = [];
          changed1 = fold (\<lambda>field changed.
              if get_field oldOutput field \<noteq> get_field newOutput field
              then assign field (Leaf \<lparr>before = JString (get_field oldOutput field),
                                        after = JString (get_field newOutput field)\<rparr>) changed
              else changed) primitiveFields changed0;
          oldTakeaways = takeaways oldOutput;
          newTakeaways = takeaways newOutput;
          changed2 =
            (if length oldTakeaways \<noteq> length newTakeaways \<or>
                \<not> every (\<lambda>val idx. Some val = js_index newTakeaways idx) oldTakeaways
             then assign ''takeaways'' (Leaf \<lparr>before = JArray oldTakeaways,
                                               after = JArray newTakeaways\<rparr>) changed1
             else changed1);
          oldSimilar = similarTo oldOutput;
          newSimilar = similarTo newOutput;
          similarToChanges0 = [];
          similarToChanges1 =
            (if sim_title oldSimilar \<noteq> sim_title newSimilar
             then assign ''title'' \<lparr>before = of_title (sim_title oldSimilar),
                                    after = of_title (sim_title newSimilar)\<rparr> similarToChanges0
             else similarToChanges0);
          similarToChanges2 =
            (if reason oldSimilar \<noteq> reason newSimilar
             then assign ''reason'' \<lparr>before = JString (reason oldSimilar),
                                     after = JString (reason newSimilar)\<rparr> similarToChanges1
             else similarToChanges1);
          changed3 =
            (if length (Object_keys similarToChanges2) > 0
             then assign ''similarTo'' (Nested similarToChanges2) changed2
             else changed2)
      in \<lparr>changed = changed3\<rparr>)"

text \<open>
  \<open>generateDiff\<close> of the second program variant, \<open>src/unnamed/part_001\<close>, lines 164 to 226:
  it takes one object \<open>{output, newOutput}\<close> and destructures \<open>takeaways\<close> and the two
  subfields of \<open>similarTo\<close> before comparing them.
\<close>

definition generateDiff_part_001 :: "EnrichedArticle \<Rightarrow> EnrichedArticle \<Rightarrow> Diff" where
  "generateDiff_part_001 output newOutput =
     (let changed0 = [];
          changed1 = fold (\<lambda>field changed.
              if get_field output field \<noteq> get_field newOutput field
              then assign field (Leaf \<lparr>before = JString (get_field output field),
                                        after = JString (get_field newOutput field)\<rparr>) changed
              else changed) primitiveFields changed0;
          takeaways' = takeaways output;
          newTakeaways = takeaways newOutput;
          changed2 =
            (if length takeaways' \<noteq> length newTakeaways \<or>
                \<not> every (\<lambda>val idx. Some val = js_index newTakeaways idx) takeaways'
             then assign ''takeaways'' (Leaf \<lparr>before = JArray takeaways',
                                               after = JArray newTakeaways\<rparr>) changed1
             else changed1);
          (title', reason') = (sim_title (similarTo output), reason (similarTo output));
          (newTitle, newReason) = (sim_title (similarTo newOutput), reason (similarTo newOutput));
          similarToChanges0 = [];
          similarToChanges1 =
            (if title' \<noteq> newTitle
             then assign ''title'' \<lparr>before = of_title title', after = of_title newTitle\<rparr>
                    similarToChanges0
             else similarToChanges0);
          similarToChanges2 =
            (if reason' \<noteq> newReason
             then assign ''reason'' \<lparr>before = JString reason', after = JString newReason\<rparr>
                    similarToChanges1
             else similarToChanges1);
          changed3 =
            (if length (Object_keys similarToChanges2) > 0
             then assign ''similarTo'' (Nested similarToChanges2) changed2
             else changed2)
      in \<lparr>changed = changed3\<rparr>)"

section \<open>The world the program runs in\<close>

text \<open>
  The effects of the program are written out as changes to a \<open>world\<close>:
  \<^item> \<open>rnd\<close> is the sequence of numbers that successive calls of \<open>Math.random()\<close> return and
    \<open>drawn\<close> counts the calls made so far;
  \<^item> \<open>slept\<close> lists, oldest first, the delays of the timers the program has awaited
    (\<open>await new Promise((res) => setTimeout(res, delay))\<close>), in milliseconds;
  \<^item> \<open>files\<close> is the file system behind \<open>fs.readFile\<close> and \<open>fs.writeFile\<close>;
  \<^item> \<open>invoked\<close> is a call counter that only the test double \<open>spy\<close> below writes.
  JavaScript numbers are taken as reals, except in the cut point of the channel, which is
  computed in binary64 arithmetic (section below); what the program prints on the console
  is not part of the world. Reading a path that holds no file fails with the runtime's
  error \<open>ENOENT\<close>; writing a file always succeeds.
\<close>

record world =
  rnd :: "nat \<Rightarrow> real"
  drawn :: nat
  slept :: "real list"
  files :: "string \<Rightarrow> string option"
  invoked :: nat

datatype error = Error (message: string)

definition Math_random :: "world \<Rightarrow> real \<times> world" where
  "Math_random w = (rnd w (drawn w), w\<lparr>drawn := Suc (drawn w)\<rparr>)"

definition setTimeout :: "real \<Rightarrow> world \<Rightarrow> world" where
  "setTimeout delay w = w\<lparr>slept := slept w @ [delay]\<rparr>"

definition fs_readFile :: "string \<Rightarrow> world \<Rightarrow> error + string" where
  "fs_readFile path w =
     (case files w path of
        None \<Rightarrow> Inl (Error (''ENOENT: no such file or directory, open '' @
                            [CHR 0x27] @ path @ [CHR 0x27]))
      | Some raw \<Rightarrow> Inr raw)"

definition fs_writeFile :: "string \<Rightarrow> string \<Rightarrow> world \<Rightarrow> world" where
  "fs_writeFile file data w = w\<lparr>files := (files w)(file \<mapsto> data)\<rparr>"

text \<open>
  \<open>s.slice(0, end)\<close> for an integer \<open>end\<close>: a negative \<open>end\<close> counts from the end of the
  string, and an \<open>end\<close> beyond the length gives the whole string.
\<close>

definition slice0 :: "string \<Rightarrow> int \<Rightarrow> string" where
  "slice0 s e = (if e < 0 then take (nat (int (length s) + e)) s else take (nat e) s)"

section \<open>Binary64 arithmetic\<close>

text \<open>
  JavaScript numbers are IEEE 754 doubles: the result of a product or a sum is the exact
  result rounded to the nearest number with a significand of 53 bits, a tie going to the
  even significand. \<open>fl\<close> is this rounding, on reals. \<open>binade x\<close> is the exponent \<open>e\<close>
  with \<open>2 ^ e \<le> x < 2 ^ (e + 1)\<close> for a positive \<open>x\<close>, found from the bit length of the
  integer part of \<open>x\<close>, or of \<open>1 / x\<close> when \<open>x\<close> is below 1; \<open>ulp x\<close> is the distance
  between neighbouring doubles there; \<open>rne\<close> rounds to the nearest integer, ties to even.
  The range of the exponent is not bounded: the values of the program stay far inside it,
  except a product with a draw below \<open>2 ^ - 1022\<close>, whose sum with 0.5 is 0.5 under both
  roundings.
\<close>

fun bitlength :: "nat \<Rightarrow> nat" where
  "bitlength n = (if n = 0 then 0 else Suc (bitlength (n div 2)))"

declare bitlength.simps [simp del]

definition binade :: "real \<Rightarrow> int" where
  "binade x =
     (if 1 \<le> x then int (bitlength (nat \<lfloor>x\<rfloor>)) - 1
      else - int (bitlength (nat (\<lceil>1 / x\<rceil> - 1))))"

definition ulp :: "real \<Rightarrow> real" where
  "ulp x = 2 powi (binade x - 52)"

definition rne :: "real \<Rightarrow> int" where
  "rne q =
     (let n = \<lfloor>q\<rfloor>; r = q - of_int n
      in if r < 1 / 2 then n else if 1 / 2 < r then n + 1 else if even n then n else n + 1)"

definition fl :: "real \<Rightarrow> real" where
  "fl x =
     (if x = 0 then 0
      else let e = binade \<bar>x\<bar>; u = 2 powi (e - 52)
           in sgn x * of_int (rne (\<bar>x\<bar> / u)) * u)"


section \<open>The unreliable channel\<close>

text \<open>
  \<open>readFileFromCloud\<close> of \<open>src/prismicLib/readFileFromCloud.ts\<close>. In
  \<open>Math.floor(raw.length * (0.5 + Math.random() * 0.4))\<close> the literal 0.4 is the double
  nearest to it, \<open>fl 0.4\<close>, the literal 0.5 and the length are doubles as they are, and
  each of the two products and the sum is rounded.
\<close>

definition readFileFromCloud :: "string \<Rightarrow> world \<Rightarrow> (error + string) \<times> world" where
  "readFileFromCloud path w =
     (case Math_random w of (dice, w1) \<Rightarrow>
        if dice < 0.1 then (Inl (Error ''Read failed: filesystem error''), w1)
        else
          (let w2 = (if dice < 0.2 then setTimeout 60000 w1 else w1) in
           case fs_readFile path w2 of
             Inl e \<Rightarrow> (Inl e, w2)
           | Inr raw \<Rightarrow>
               if dice < 0.3 then
                 (case Math_random w2 of (x, w3) \<Rightarrow>
                    let cutAt = \<lfloor>fl (real (length raw) * fl (0.5 + fl (x * fl 0.4)))\<rfloor>
                    in (Inr (slice0 raw cutAt), w3))
               else (Inr raw, w2)))"

text \<open>\<open>writeFileToCloud\<close> of \<open>src/unnamed/part_000\<close>.\<close>

definition writeFileToCloud :: "string \<Rightarrow> string \<Rightarrow> world \<Rightarrow> (error + unit) \<times> world" where
  "writeFileToCloud file data w =
     (case Math_random w of (dice, w1) \<Rightarrow>
        if dice < 0.1 then (Inl (Error ''Write failed: filesystem error''), w1)
        else
          (let w2 = (if dice < 0.2 then setTimeout 60000 w1 else w1) in
           if dice < 0.3 then
             (case Math_random w2 of (x, w3) \<Rightarrow>
                let cutAt = \<lfloor>fl (real (length data) * fl (0.5 + fl (x * fl 0.4)))\<rfloor>
                in (Inr (), fs_writeFile file (slice0 data cutAt) w3))
           else (Inr (), fs_writeFile file data w2)))"

text \<open>
  What one call of the channel is seen to do, from its result and the worlds before and
  after it: it failed, it waited on a timer, it delivered something other than the content,
  it delivered the content.
\<close>

datatype outcome = HardFailure | Stall | Truncation | Success

definition read_outcomes :: "string \<Rightarrow> world \<Rightarrow> outcome list" where
  "read_outcomes path w =
     (case readFileFromCloud path w of (r, w') \<Rightarrow>
        (if isl r then [HardFailure] else []) @
        (if slept w' \<noteq> slept w then [Stall] else []) @
        (case r of
           Inl e \<Rightarrow> []
         | Inr got \<Rightarrow> if files w path = Some got then [Success] else [Truncation]))"

definition write_outcomes :: "string \<Rightarrow> string \<Rightarrow> world \<Rightarrow> outcome list" where
  "write_outcomes file data w =
     (case writeFileToCloud file data w of (r, w') \<Rightarrow>
        (if isl r then [HardFailure] else []) @
        (if slept w' \<noteq> slept w then [Stall] else []) @
        (case r of
           Inl e \<Rightarrow> []
         | Inr u \<Rightarrow> if files w' file = Some data then [Success] else [Truncation]))"

section \<open>The retry orchestrator\<close>

text \<open>
  The decimal numeral that a template literal prints for a count (a non-negative integer in
  the range where JavaScript numbers are exact).
\<close>

fun decimal :: "nat \<Rightarrow> string" where
  "decimal n =
     (if n < 10 then [''0123456789'' ! n]
      else decimal (n div 10) @ [''0123456789'' ! (n mod 10)])"

declare decimal.simps [simp del]

text \<open>
  The body of the \<open>try\<close> block of \<open>retryWithBackoff\<close> (lines 59 to 65), applied to what
  \<open>await operation()\<close> produced: the error that reaches the \<open>catch\<close> block, or the
  result that is returned.
\<close>

definition attempt_outcome :: "('a \<Rightarrow> bool) option \<Rightarrow> error + 'a \<Rightarrow> error + 'a" where
  "attempt_outcome validator r =
     (case r of
        Inl e \<Rightarrow> Inl e
      | Inr result \<Rightarrow>
          (case validator of
             Some valid \<Rightarrow>
               if \<not> valid result then Inl (Error ''Invalid or partial data received'')
               else Inr result
           | None \<Rightarrow> Inr result))"

text \<open>The error thrown after the loop (lines 82 to 84).\<close>

definition exhausted :: "nat \<Rightarrow> error option \<Rightarrow> error" where
  "exhausted maxRetries lastError =
     Error (''Operation failed after '' @ decimal maxRetries @ '' attempts: '' @
            (case lastError of None \<Rightarrow> ''undefined'' | Some e \<Rightarrow> message e))"

text \<open>
  The \<open>for\<close> loop of \<open>retryWithBackoff\<close> (lines 57 to 80) from the state in which the loop
  variable is \<open>attempt\<close>, followed by the \<open>throw\<close> after it; \<open>break\<close> leaves the loop with
  \<open>lastError\<close> set to the error just caught.
\<close>

function retry_loop ::
  "(world \<Rightarrow> (error + 'a) \<times> world) \<Rightarrow> nat \<Rightarrow> real \<Rightarrow> ('a \<Rightarrow> bool) option \<Rightarrow>
   nat \<Rightarrow> error option \<Rightarrow> world \<Rightarrow> (error + 'a) \<times> world" where
  "retry_loop operation maxRetries baseDelay validator attempt lastError w =
     (if attempt < maxRetries then
        (case operation w of (r, w1) \<Rightarrow>
           (case attempt_outcome validator r of
              Inr result \<Rightarrow> (Inr result, w1)
            | Inl error \<Rightarrow>
                (let isLastAttempt = (attempt = maxRetries - 1) in
                 if isLastAttempt then (Inl (exhausted maxRetries (Some error)), w1)
                 else
                   (case Math_random w1 of (x, w2) \<Rightarrow>
                      let delay = baseDelay * 2 ^ attempt + x * 1000
                      in retry_loop operation maxRetries baseDelay validator (attempt + 1)
                           (Some error) (setTimeout delay w2)))))
      else (Inl (exhausted maxRetries lastError), w))"
  by pat_completeness auto
termination
  by (relation "measure (\<lambda>(operation, maxRetries, baseDelay, validator, attempt, lastError, w).
        maxRetries - attempt)") auto

declare retry_loop.simps [simp del]

text \<open>
  \<open>retryWithBackoff\<close> (lines 49 to 85) with its default parameters: an argument that is
  left out is \<open>None\<close>.
\<close>

definition retryWithBackoff ::
  "(world \<Rightarrow> (error + 'a) \<times> world) \<Rightarrow> nat option \<Rightarrow> real option \<Rightarrow> ('a \<Rightarrow> bool) option \<Rightarrow>
   world \<Rightarrow> (error + 'a) \<times> world" where
  "retryWithBackoff operation maxRetries baseDelay validator w =
     retry_loop operation (case maxRetries of None \<Rightarrow> 5 | Some m \<Rightarrow> m)
       (case baseDelay of None \<Rightarrow> 1000 | Some b \<Rightarrow> b) validator 0 None w"

text \<open>
  A test double around an operation: it runs the operation and counts the call in
  \<open>invoked\<close>, so that an operation can be scripted by the number of calls made before.
\<close>

definition spy :: "(world \<Rightarrow> (error + 'a) \<times> world) \<Rightarrow> world \<Rightarrow> (error + 'a) \<times> world" where
  "spy operation w =
     (case operation w of (r, w') \<Rightarrow> (r, w'\<lparr>invoked := Suc (invoked w')\<rparr>))"

section \<open>The enrichment orchestrator\<close>






section \<open>Observations and test data\<close>

text \<open>
  \<open>subfield d k\<close> is \<open>d.similarTo[k]\<close> when \<open>d.similarTo\<close> is a nested mapping, and
  \<open>no_noop d\<close> says that no entry of \<open>d\<close>, at either level, has equal \<open>before\<close> and
  \<open>after\<close>.
\<close>

definition subfield :: "entry object \<Rightarrow> string \<Rightarrow> change option" where
  "subfield d k = (case map_of d ''similarTo'' of Some (Nested cs) \<Rightarrow> map_of cs k | _ \<Rightarrow> None)"

definition no_noop :: "entry object \<Rightarrow> bool" where
  "no_noop d =
     list_all (\<lambda>(k, e). case e of
                 Leaf c \<Rightarrow> before c \<noteq> after c
               | Nested cs \<Rightarrow> list_all (\<lambda>(k', c). before c \<noteq> after c) cs) d"

text \<open>Two enriched articles that differ in category, in the order of takeaways and in
  the title of \<open>similarTo\<close>.\<close>

definition example_old :: EnrichedArticle where
  "example_old = \<lparr>title = ''A'', summary = ''S'', category = ''C'', takeaways = [''t1'', ''t2''],
     similarTo = \<lparr>sim_title = None, reason = ''no match''\<rparr>\<rparr>"

definition example_new :: EnrichedArticle where
  "example_new = \<lparr>title = ''A'', summary = ''S'', category = ''D'', takeaways = [''t2'', ''t1''],
     similarTo = \<lparr>sim_title = Some ''B'', reason = ''no match''\<rparr>\<rparr>"

text \<open>The number that a string of decimal digits names.\<close>

definition decimal_value :: "string \<Rightarrow> nat" where
  "decimal_value s = foldl (\<lambda>n c. 10 * n + (of_char c - 48)) 0 s"

text \<open>
  \<open>flaky k v\<close> fails on the calls made while fewer than \<open>k\<close> calls have been counted and
  returns \<open>v\<close> afterwards; \<open>broken\<close> fails on every call. Both name the number of
  earlier calls in the message. In \<open>calm_world\<close> every random draw is one half and there are no
  files; in \<open>dice_world dice\<close> the first draw is \<open>dice\<close>, every later one is one half, and
  \<open>output.json\<close> holds ten characters.
\<close>

definition flaky :: "nat \<Rightarrow> string \<Rightarrow> world \<Rightarrow> (error + string) \<times> world" where
  "flaky k v w = (if invoked w < k then Inl (Error (''boom '' @ decimal (invoked w))) else Inr v, w)"

definition broken :: "world \<Rightarrow> (error + string) \<times> world" where
  "broken w = (Inl (Error (''boom '' @ decimal (invoked w))), w)"

definition calm_world :: world where
  "calm_world = \<lparr>rnd = (\<lambda>i. 1 / 2), drawn = 0, slept = [], files = Map.empty, invoked = 0\<rparr>"

definition dice_world :: "real \<Rightarrow> world" where
  "dice_world dice = \<lparr>rnd = (\<lambda>i. if i = 0 then dice else 1 / 2), drawn = 0, slept = [],
     files = [''output.json'' \<mapsto> ''0123456789''], invoked = 0\<rparr>"




text \<open>
  The cut point of the channel for content of length \<open>n\<close> and the draw \<open>x\<close>, and a world in
  which the dice is 0.25 and the draw for the cut point is \<open>x\<close>.
\<close>

definition cut_point :: "nat \<Rightarrow> real \<Rightarrow> int" where
  "cut_point n x = \<lfloor>fl (real n * fl (0.5 + fl (x * fl 0.4)))\<rfloor>"

definition cut_world :: "real \<Rightarrow> world" where
  "cut_world x = \<lparr>rnd = (\<lambda>i. if i = 0 then 0.25 else x), drawn = 0, slept = [],
     files = [''output.json'' \<mapsto> ''0123456789''], invoked = 0\<rparr>"

section \<open>Properties of the diff engine\<close>

lemma every_nth: "every p xs \<longleftrightarrow> (\<forall>i<length xs. p (xs ! i) i)"
  unfolding every_def list_all_length by simp

lemma every_eq: "length xs = length ys \<Longrightarrow> every (\<lambda>val idx. Some val = js_index ys idx) xs \<longleftrightarrow> xs = ys"
  unfolding every_nth js_index_def
  by (auto simp: list_eq_iff_nth_eq)

lemma takeaways_test:
  "(length xs \<noteq> length ys \<or> \<not> every (\<lambda>val idx. Some val = js_index ys idx) xs) \<longleftrightarrow> xs \<noteq> ys"
  using every_eq[of xs ys] by auto

lemma of_title_eq [simp]: "of_title x = of_title y \<longleftrightarrow> x = y"
  by (cases x; cases y) (simp_all add: of_title_def)

lemma generateDiff_closed:
  "changed (generateDiff a b) =
     (if title a \<noteq> title b
      then [(''title'', Leaf \<lparr>before = JString (title a), after = JString (title b)\<rparr>)] else []) @
     (if summary a \<noteq> summary b
      then [(''summary'', Leaf \<lparr>before = JString (summary a), after = JString (summary b)\<rparr>)] else []) @
     (if category a \<noteq> category b
      then [(''category'', Leaf \<lparr>before = JString (category a), after = JString (category b)\<rparr>)] else []) @
     (if takeaways a \<noteq> takeaways b
      then [(''takeaways'', Leaf \<lparr>before = JArray (takeaways a), after = JArray (takeaways b)\<rparr>)] else []) @
     (if sim_title (similarTo a) \<noteq> sim_title (similarTo b) \<or> reason (similarTo a) \<noteq> reason (similarTo b)
      then [(''similarTo'', Nested (
        (if sim_title (similarTo a) \<noteq> sim_title (similarTo b)
         then [(''title'', \<lparr>before = of_title (sim_title (similarTo a)),
                              after = of_title (sim_title (similarTo b))\<rparr>)] else []) @
        (if reason (similarTo a) \<noteq> reason (similarTo b)
         then [(''reason'', \<lparr>before = JString (reason (similarTo a)),
                               after = JString (reason (similarTo b))\<rparr>)] else [])))]
      else [])"
  unfolding generateDiff_def Let_def takeaways_test primitiveFields_def
  by (simp add: get_field_def Object_keys_def)

lemma diff_title: "map_of (changed (generateDiff a b)) ''title'' =
     (if title a \<noteq> title b
      then Some (Leaf \<lparr>before = JString (title a), after = JString (title b)\<rparr>) else None)"
  unfolding generateDiff_closed by simp

lemma diff_summary: "map_of (changed (generateDiff a b)) ''summary'' =
     (if summary a \<noteq> summary b
      then Some (Leaf \<lparr>before = JString (summary a), after = JString (summary b)\<rparr>) else None)"
  unfolding generateDiff_closed by simp

lemma diff_category: "map_of (changed (generateDiff a b)) ''category'' =
     (if category a \<noteq> category b
      then Some (Leaf \<lparr>before = JString (category a), after = JString (category b)\<rparr>) else None)"
  unfolding generateDiff_closed by simp

lemma diff_takeaways: "map_of (changed (generateDiff a b)) ''takeaways'' =
     (if takeaways a \<noteq> takeaways b
      then Some (Leaf \<lparr>before = JArray (takeaways a), after = JArray (takeaways b)\<rparr>) else None)"
  unfolding generateDiff_closed by simp

lemma diff_similarTo_absent: "map_of (changed (generateDiff a b)) ''similarTo'' = None \<longleftrightarrow>
     sim_title (similarTo a) = sim_title (similarTo b) \<and> reason (similarTo a) = reason (similarTo b)"
  unfolding generateDiff_closed by simp

lemma diff_sub_title: "subfield (changed (generateDiff a b)) ''title'' =
     (if sim_title (similarTo a) \<noteq> sim_title (similarTo b)
      then Some \<lparr>before = of_title (sim_title (similarTo a)), after = of_title (sim_title (similarTo b))\<rparr>
      else None)"
  unfolding generateDiff_closed subfield_def by simp

lemma diff_sub_reason: "subfield (changed (generateDiff a b)) ''reason'' =
     (if reason (similarTo a) \<noteq> reason (similarTo b)
      then Some \<lparr>before = JString (reason (similarTo a)), after = JString (reason (similarTo b))\<rparr>
      else None)"
  unfolding generateDiff_closed subfield_def by simp

lemma diff_keys: "set (Object_keys (changed (generateDiff a b)))
     \<subseteq> {''title'', ''summary'', ''category'', ''takeaways'', ''similarTo''}"
  unfolding generateDiff_closed Object_keys_def by (auto split: if_splits)

lemma diff_no_noop: "no_noop (changed (generateDiff a b))"
  unfolding generateDiff_closed no_noop_def by simp

lemma diff_same: "generateDiff a a = \<lparr>changed = []\<rparr>"
proof -
  have "changed (generateDiff a a) = []" unfolding generateDiff_closed by simp
  then show ?thesis by (cases "generateDiff a a") simp
qed

lemma diff_takeaways_once: "takeaways a \<noteq> takeaways b \<Longrightarrow>
    count_list (Object_keys (changed (generateDiff a b))) ''takeaways'' = 1"
  unfolding generateDiff_closed Object_keys_def by simp

text \<open>
  Claim C5. For every pair of enriched articles, each top-level field and each subfield of
  \<open>similarTo\<close> is in the \<open>changed\<close> mapping exactly when its two values differ, with the
  old value under \<open>before\<close> and the new one under \<open>after\<close>; the key \<open>similarTo\<close> is
  absent exactly when both subfields are equal; no other key occurs; no entry has equal
  \<open>before\<close> and \<open>after\<close>; and the diff of an article with itself is \<open>{changed: {}}\<close>.
\<close>

theorem generateDiff_sparse:
  "map_of (changed (generateDiff a b)) ''title'' =
     (if title a \<noteq> title b
      then Some (Leaf \<lparr>before = JString (title a), after = JString (title b)\<rparr>) else None) \<and>
   map_of (changed (generateDiff a b)) ''summary'' =
     (if summary a \<noteq> summary b
      then Some (Leaf \<lparr>before = JString (summary a), after = JString (summary b)\<rparr>) else None) \<and>
   map_of (changed (generateDiff a b)) ''category'' =
     (if category a \<noteq> category b
      then Some (Leaf \<lparr>before = JString (category a), after = JString (category b)\<rparr>) else None) \<and>
   map_of (changed (generateDiff a b)) ''takeaways'' =
     (if takeaways a \<noteq> takeaways b
      then Some (Leaf \<lparr>before = JArray (takeaways a), after = JArray (takeaways b)\<rparr>) else None) \<and>
   (map_of (changed (generateDiff a b)) ''similarTo'' = None \<longleftrightarrow>
      sim_title (similarTo a) = sim_title (similarTo b) \<and> reason (similarTo a) = reason (similarTo b)) \<and>
   subfield (changed (generateDiff a b)) ''title'' =
     (if sim_title (similarTo a) \<noteq> sim_title (similarTo b)
      then Some \<lparr>before = of_title (sim_title (similarTo a)), after = of_title (sim_title (similarTo b))\<rparr>
      else None) \<and>
   subfield (changed (generateDiff a b)) ''reason'' =
     (if reason (similarTo a) \<noteq> reason (similarTo b)
      then Some \<lparr>before = JString (reason (similarTo a)), after = JString (reason (similarTo b))\<rparr>
      else None) \<and>
   set (Object_keys (changed (generateDiff a b)))
     \<subseteq> {''title'', ''summary'', ''category'', ''takeaways'', ''similarTo''} \<and>
   no_noop (changed (generateDiff a b)) \<and>
   generateDiff a a = \<lparr>changed = []\<rparr>"
  by (intro conjI diff_title diff_summary diff_category diff_takeaways diff_similarTo_absent
      diff_sub_title diff_sub_reason diff_keys diff_no_noop diff_same)

text \<open>The statement of C5 at \<open>example_old\<close> and \<open>example_new\<close>.\<close>

theorem generateDiff_sparse_witness:
  "changed (generateDiff example_old example_new) =
     [(''category'', Leaf \<lparr>before = JString ''C'', after = JString ''D''\<rparr>),
      (''takeaways'', Leaf \<lparr>before = JArray [''t1'', ''t2''], after = JArray [''t2'', ''t1'']\<rparr>),
      (''similarTo'', Nested [(''title'', \<lparr>before = JNull, after = JString ''B''\<rparr>)])] \<and>
   map_of (changed (generateDiff example_old example_new)) ''title'' = None \<and>
   map_of (changed (generateDiff example_old example_new)) ''category'' =
     Some (Leaf \<lparr>before = JString ''C'', after = JString ''D''\<rparr>) \<and>
   subfield (changed (generateDiff example_old example_new)) ''title'' =
     Some \<lparr>before = JNull, after = JString ''B''\<rparr> \<and>
   subfield (changed (generateDiff example_old example_new)) ''reason'' = None \<and>
   no_noop (changed (generateDiff example_old example_new)) \<and>
   generateDiff example_old example_old = \<lparr>changed = []\<rparr>"
proof -
  have ev: "changed (generateDiff example_old example_new) =
     [(''category'', Leaf \<lparr>before = JString ''C'', after = JString ''D''\<rparr>),
      (''takeaways'', Leaf \<lparr>before = JArray [''t1'', ''t2''], after = JArray [''t2'', ''t1'']\<rparr>),
      (''similarTo'', Nested [(''title'', \<lparr>before = JNull, after = JString ''B''\<rparr>)])]"
    by (simp add: generateDiff_def example_old_def example_new_def primitiveFields_def get_field_def
        every_def js_index_def Object_keys_def of_title_def)
  show ?thesis
    using generateDiff_sparse[of example_old example_new] ev
    by (simp add: example_old_def example_new_def of_title_def)
qed

text \<open>
  Claim C8. When the takeaways of two enriched articles hold the same elements in a
  different order, the diff reports \<open>takeaways\<close> as changed, as one entry whose \<open>before\<close>
  and \<open>after\<close> are the two whole arrays.
\<close>

theorem takeaways_reordered_reported:
  assumes "mset (takeaways a) = mset (takeaways b)" and "takeaways a \<noteq> takeaways b"
  shows "map_of (changed (generateDiff a b)) ''takeaways'' =
           Some (Leaf \<lparr>before = JArray (takeaways a), after = JArray (takeaways b)\<rparr>) \<and>
         count_list (Object_keys (changed (generateDiff a b))) ''takeaways'' = 1"
  using assms(2) diff_takeaways[of a b] diff_takeaways_once[of a b] by simp

text \<open>The statement of C8 at \<open>example_old\<close> and \<open>example_new\<close>.\<close>

theorem takeaways_reordered_reported_witness:
  "mset (takeaways example_old) = mset (takeaways example_new) \<and>
   takeaways example_old \<noteq> takeaways example_new \<and>
   map_of (changed (generateDiff example_old example_new)) ''takeaways'' =
     Some (Leaf \<lparr>before = JArray [''t1'', ''t2''], after = JArray [''t2'', ''t1'']\<rparr>) \<and>
   count_list (Object_keys (changed (generateDiff example_old example_new))) ''takeaways'' = 1"
proof -
  have h1: "mset (takeaways example_old) = mset (takeaways example_new)"
    by (simp add: example_old_def example_new_def)
  have h2: "takeaways example_old \<noteq> takeaways example_new"
    by (simp add: example_old_def example_new_def)
  show ?thesis
    using takeaways_reordered_reported[OF h1 h2] h1 h2
    by (simp add: example_old_def example_new_def)
qed

text \<open>
  Claim C10. The diff engines of the two program variants agree: on every pair of enriched
  articles, \<open>generateDiff\<close> of \<open>src/main.ts\<close> and \<open>generateDiff\<close> of
  \<open>src/unnamed/part_001\<close> return equal diffs.
\<close>

theorem generateDiff_variants_agree:
  "generateDiff_part_001 output newOutput = generateDiff output newOutput"
  unfolding generateDiff_def generateDiff_part_001_def Let_def by simp

text \<open>The statement of C10 at \<open>example_old\<close> and \<open>example_new\<close>.\<close>

theorem generateDiff_variants_agree_witness:
  "generateDiff_part_001 example_old example_new = generateDiff example_old example_new \<and>
   changed (generateDiff_part_001 example_old example_new) =
     [(''category'', Leaf \<lparr>before = JString ''C'', after = JString ''D''\<rparr>),
      (''takeaways'', Leaf \<lparr>before = JArray [''t1'', ''t2''], after = JArray [''t2'', ''t1'']\<rparr>),
      (''similarTo'', Nested [(''title'', \<lparr>before = JNull, after = JString ''B''\<rparr>)])]"
proof -
  have ev: "changed (generateDiff example_old example_new) =
     [(''category'', Leaf \<lparr>before = JString ''C'', after = JString ''D''\<rparr>),
      (''takeaways'', Leaf \<lparr>before = JArray [''t1'', ''t2''], after = JArray [''t2'', ''t1'']\<rparr>),
      (''similarTo'', Nested [(''title'', \<lparr>before = JNull, after = JString ''B''\<rparr>)])]"
    by (simp add: generateDiff_def example_old_def example_new_def primitiveFields_def get_field_def
        every_def js_index_def Object_keys_def of_title_def)
  show ?thesis
    using generateDiff_variants_agree[of example_old example_new] ev by simp
qed

section \<open>Effects on the world\<close>

lemma invoked_backoff [simp]: "invoked (setTimeout d w) = invoked w" "invoked (snd (Math_random w)) = invoked w"
  by (simp_all add: setTimeout_def Math_random_def)

lemma backoff_world [simp]:
  "slept (setTimeout d w) = slept w @ [d]"
  "drawn (setTimeout d w) = drawn w"
  "rnd (setTimeout d w) = rnd w"
  "fst (Math_random w) = rnd w (drawn w)"
  "slept (snd (Math_random w)) = slept w"
  "drawn (snd (Math_random w)) = Suc (drawn w)"
  "rnd (snd (Math_random w)) = rnd w"
  by (simp_all add: setTimeout_def Math_random_def)

lemma channel_world [simp]:
  "files (setTimeout d w) = files w"
  "files (snd (Math_random w)) = files w"
  "slept (fs_writeFile f s w) = slept w"
  "drawn (fs_writeFile f s w) = drawn w"
  "rnd (fs_writeFile f s w) = rnd w"
  "files (fs_writeFile f s w) f = Some s"
  by (simp_all add: setTimeout_def Math_random_def fs_writeFile_def)

section \<open>Properties of the rounding\<close>

lemma bitlength_bounds: "0 < n \<Longrightarrow> 2 ^ (bitlength n - 1) \<le> n \<and> n < 2 ^ bitlength n"
proof (induction n rule: bitlength.induct)
  case (1 n)
  show ?case
  proof (cases "n div 2 = 0")
    case True
    then have "n = 1" using 1(2) by linarith
    then show ?thesis by (simp add: bitlength.simps)
  next
    case False
    then have h: "2 ^ (bitlength (n div 2) - 1) \<le> n div 2" "n div 2 < 2 ^ bitlength (n div 2)"
      using 1 by simp_all
    have pos: "0 < bitlength (n div 2)" using False by (subst bitlength.simps) simp
    have b: "bitlength n = Suc (bitlength (n div 2))" using 1(2) by (subst bitlength.simps) simp
    have p: "(2::nat) ^ (bitlength n - 1) = 2 * 2 ^ (bitlength (n div 2) - 1)"
      using pos unfolding b by (cases "bitlength (n div 2)") simp_all
    have "2 * (n div 2) \<le> n" "n < 2 * (n div 2) + 2" by linarith+
    then have "2 ^ (bitlength n - 1) \<le> n" "n < 2 * 2 ^ bitlength (n div 2)"
      using h unfolding p by linarith+
    then show ?thesis unfolding b by simp
  qed
qed

lemma bitlength_pos: "0 < n \<Longrightarrow> 0 < bitlength n"
  by (subst bitlength.simps) simp

lemma binade_bounds:
  assumes "0 < x"
  shows "2 powi binade x \<le> x" and "x < 2 powi (binade x + 1)"
proof -
  have "2 powi binade x \<le> x \<and> x < 2 powi (binade x + 1)"
  proof (cases "1 \<le> x")
    case True
    let ?n = "nat \<lfloor>x\<rfloor>"
    have n: "0 < ?n" using True by simp
    have e: "binade x = int (bitlength ?n - 1)"
      using True bitlength_pos[OF n] by (simp add: binade_def of_nat_diff)
    have e1: "binade x + 1 = int (bitlength ?n)"
      using True bitlength_pos[OF n] by (simp add: binade_def)
    from bitlength_bounds[OF n] have lo: "2 ^ (bitlength ?n - 1) \<le> ?n" and hi: "?n < 2 ^ bitlength ?n"
      by simp_all
    have "real (2 ^ (bitlength ?n - 1)) \<le> real ?n" using lo by (rule iffD2[OF of_nat_le_iff])
    also have "real ?n \<le> x" using True by simp
    finally have A: "2 powi binade x \<le> x" unfolding e by simp
    have "int ?n + 1 \<le> 2 ^ bitlength ?n" using hi by (simp add: nat_less_iff; linarith)
    then have "\<lfloor>x\<rfloor> + 1 \<le> 2 ^ bitlength ?n" using True by simp
    then have "real_of_int (\<lfloor>x\<rfloor> + 1) \<le> real_of_int (2 ^ bitlength ?n)" by (rule iffD2[OF of_int_le_iff])
    then have "real_of_int \<lfloor>x\<rfloor> + 1 \<le> 2 ^ bitlength ?n" by simp
    moreover have "x < real_of_int \<lfloor>x\<rfloor> + 1" by linarith
    ultimately have "x < 2 ^ bitlength ?n" by linarith
    then have "x < 2 powi (binade x + 1)" unfolding e1 by simp
    with A show ?thesis by simp
  next
    case False
    then have x1: "x < 1" by simp
    let ?m = "nat (\<lceil>1 / x\<rceil> - 1)"
    have inv: "1 < 1 / x" using assms x1 by simp
    then have c: "2 \<le> \<lceil>1 / x\<rceil>" by linarith
    then have m: "0 < ?m" by linarith
    have "0 \<le> \<lceil>1 / x\<rceil> - 1" using c by linarith
    then have mi: "int ?m = \<lceil>1 / x\<rceil> - 1" by (rule nat_0_le)
    let ?k = "bitlength ?m"
    have e: "binade x = - int ?k" using False by (simp add: binade_def)
    from bitlength_bounds[OF m] have lo: "2 ^ (?k - 1) \<le> ?m" and hi: "?m < 2 ^ ?k" by simp_all
    have kpos: "0 < ?k" by (rule bitlength_pos[OF m])
    have "int ?m + 1 \<le> 2 ^ ?k" using hi by (simp add: nat_less_iff; linarith)
    then have "\<lceil>1 / x\<rceil> \<le> 2 ^ ?k" using mi by simp
    then have ck: "real_of_int \<lceil>1 / x\<rceil> \<le> real_of_int (2 ^ ?k)" by (rule iffD2[OF of_int_le_iff])
    have "1 / x \<le> real_of_int \<lceil>1 / x\<rceil>" by (rule le_of_int_ceiling)
    also note ck
    also have "real_of_int (2 ^ ?k) = 2 ^ ?k" by simp
    finally have up: "1 / x \<le> 2 ^ ?k" .
    then have "1 \<le> x * 2 ^ ?k" using assms by (simp add: field_simps)
    then have "1 / 2 ^ ?k \<le> x" by (simp add: field_simps)
    then have A: "2 powi binade x \<le> x" unfolding e by (simp add: power_int_minus field_simps)
    have "real (2 ^ (?k - 1)) \<le> real ?m" using lo by (rule iffD2[OF of_nat_le_iff])
    also have "real ?m = real_of_int (\<lceil>1 / x\<rceil> - 1)" using mi by (metis of_int_of_nat_eq)
    also have "\<dots> < 1 / x" by linarith
    finally have "2 ^ (?k - 1) < 1 / x" by simp
    then have "x * 2 ^ (?k - 1) < 1" using assms by (simp add: field_simps)
    then have lt: "x < 1 / 2 ^ (?k - 1)" by (simp add: field_simps)
    have eq: "- int ?k + 1 = - int (?k - 1)" using kpos by simp
    have "2 powi (binade x + 1) = (1::real) / 2 ^ (?k - 1)"
      unfolding e eq by (simp only: power_int_minus power_int_of_nat inverse_eq_divide)
    with lt have "x < 2 powi (binade x + 1)" by (simp only:)
    with A show ?thesis by simp
  qed
  then show "2 powi binade x \<le> x" and "x < 2 powi (binade x + 1)" by simp_all
qed

lemma rne_floor: "\<lfloor>q\<rfloor> \<le> rne q" "rne q \<le> \<lfloor>q\<rfloor> + 1"
  by (simp_all add: rne_def Let_def)

lemma rne_near: "\<bar>of_int (rne q) - q\<bar> \<le> 1 / 2"
proof -
  have "of_int \<lfloor>q\<rfloor> \<le> q" "q < of_int \<lfloor>q\<rfloor> + 1" by linarith+
  then show ?thesis by (auto simp: rne_def Let_def)
qed

lemma rne_ge_int: "of_int N \<le> q \<Longrightarrow> N \<le> rne q"
proof -
  assume "of_int N \<le> q"
  then have "N \<le> \<lfloor>q\<rfloor>" by (rule iffD2[OF le_floor_iff])
  with rne_floor(1)[of q] show ?thesis by linarith
qed

lemma pow2_less_exp: "(2::real) powi a < 2 powi b \<Longrightarrow> a < b"
proof (rule ccontr)
  assume lt: "(2::real) powi a < 2 powi b" and "\<not> a < b"
  then have "b \<le> a" by simp
  then have "(2::real) powi b \<le> 2 powi a" by (rule power_int_increasing) simp
  with lt show False by simp
qed

lemma pow2_add: "(2::real) powi (a + b) = 2 powi a * 2 powi b"
  by (rule power_int_add) simp

lemma ulp_pos: "0 < ulp x" and ulp_nonneg: "0 \<le> ulp x"
  by (simp_all add: ulp_def)

lemma fl_pos: "0 < x \<Longrightarrow> fl x = of_int (rne (x / ulp x)) * ulp x"
  by (simp add: fl_def ulp_def Let_def)

lemma ulp_binade: "ulp x * 2 powi 52 = 2 powi binade x"
  unfolding ulp_def using pow2_add[of "binade x - 52" 52] by simp

lemma scaled_ge:
  assumes "0 < x"
  shows "2 powi 52 \<le> x / ulp x"
proof -
  have "ulp x * 2 powi 52 \<le> x" using binade_bounds(1)[OF assms] by (simp only: ulp_binade)
  then have "2 powi 52 * ulp x \<le> x" by (simp only: mult.commute)
  then show ?thesis using ulp_pos[of x] by (simp only: le_divide_eq if_True)
qed

lemma fl_error:
  assumes "0 < x"
  shows "\<bar>fl x - x\<bar> \<le> x / 2 powi 53"
proof -
  have "\<bar>of_int (rne (x / ulp x)) - x / ulp x\<bar> * ulp x \<le> 1 / 2 * ulp x"
    by (rule mult_right_mono[OF rne_near ulp_nonneg])
  moreover have "\<bar>of_int (rne (x / ulp x)) - x / ulp x\<bar> * ulp x = \<bar>fl x - x\<bar>"
  proof -
    have "\<bar>of_int (rne (x / ulp x)) - x / ulp x\<bar> * ulp x
          = \<bar>(of_int (rne (x / ulp x)) - x / ulp x) * ulp x\<bar>"
      using ulp_nonneg[of x] by (simp only: abs_mult abs_of_nonneg)
    also have "(of_int (rne (x / ulp x)) - x / ulp x) * ulp x = fl x - x"
      using ulp_pos[of x] by (simp add: fl_pos[OF assms] left_diff_distrib)
    finally show ?thesis .
  qed
  moreover have "1 / 2 * ulp x \<le> x / 2 powi 53"
  proof -
    have "ulp x * 2 powi 52 \<le> x" using binade_bounds(1)[OF assms] by (simp only: ulp_binade)
    moreover have "(2::real) powi 53 = 2 * 2 powi 52" by simp
    ultimately have "1 / 2 * ulp x * 2 powi 53 \<le> x" by simp
    then show ?thesis by (simp only: le_divide_eq zero_less_power_int zero_less_numeral if_True)
  qed
  ultimately show ?thesis by (simp only:)
qed

lemma fl_upper: "0 \<le> x \<Longrightarrow> fl x \<le> x * (1 + 1 / 2 powi 53)"
proof (cases "x = 0")
  case True
  then show ?thesis by (simp add: fl_def)
next
  case False
  assume "0 \<le> x"
  with False have "0 < x" by simp
  from fl_error[OF this] have "fl x - x \<le> x / 2 powi 53" by (simp only: abs_le_iff)
  then have "fl x \<le> x + x / 2 powi 53" by linarith
  also have "\<dots> = x * (1 + 1 / 2 powi 53)" by (simp only: distrib_left mult_1_right times_divide_eq_right)
  finally show ?thesis .
qed

lemma fl_lower_binade:
  assumes "0 < x"
  shows "2 powi binade x \<le> fl x"
proof -
  have "real_of_int (2 ^ 52) = 2 powi 52" by simp
  then have "real_of_int (2 ^ 52) \<le> x / ulp x" using scaled_ge[OF assms] by (simp only:)
  then have "2 ^ 52 \<le> rne (x / ulp x)" by (rule rne_ge_int)
  then have "real_of_int (2 ^ 52) \<le> of_int (rne (x / ulp x))" by (rule iffD2[OF of_int_le_iff])
  then have "real_of_int (2 ^ 52) * ulp x \<le> of_int (rne (x / ulp x)) * ulp x"
    by (rule mult_right_mono[OF _ ulp_nonneg])
  moreover have "real_of_int (2 ^ 52) * ulp x = 2 powi binade x"
    using ulp_binade[of x] by (simp add: mult.commute)
  ultimately show ?thesis by (simp only: fl_pos[OF assms])
qed

lemma fl_nonneg: "0 \<le> x \<Longrightarrow> 0 \<le> fl x"
proof (cases "x = 0")
  case True
  then show ?thesis by (simp add: fl_def)
next
  case False
  assume "0 \<le> x"
  with False have x: "0 < x" by simp
  have "0 < (2::real) powi binade x" by simp
  with fl_lower_binade[OF x] show ?thesis by linarith
qed

lemma fl_ge_repr:
  assumes M: "0 < M" "M < 2 ^ 53" and r: "r = real M * 2 powi k" and le: "r \<le> t"
  shows "r \<le> fl t"
proof -
  have rpos: "0 < r" using M(1) unfolding r by simp
  then have t: "0 < t" using le by simp
  show ?thesis
  proof (cases "r < 2 powi binade t")
    case True
    with fl_lower_binade[OF t] show ?thesis by simp
  next
    case False
    then have ge: "2 powi binade t \<le> r" by simp
    have "real M < real (2 ^ 53)" using M(2) by (rule iffD2[OF of_nat_less_iff])
    also have "real (2 ^ 53) = 2 powi 53" by simp
    finally have "real M * 2 powi k < 2 powi 53 * 2 powi k"
      by (rule mult_strict_right_mono) simp
    also have "(2::real) powi 53 * 2 powi k = 2 powi (53 + k)" by (rule pow2_add[symmetric])
    finally have "(2::real) powi binade t < 2 powi (53 + k)" using ge unfolding r by simp
    then have "binade t < 53 + k" by (rule pow2_less_exp)
    then have d: "0 \<le> k - binade t + 52" by simp
    define N where "N = int M * 2 ^ nat (k - binade t + 52)"
    have "(2::real) powi k = 2 powi (k - binade t + 52) * 2 powi (binade t - 52)"
      using pow2_add[of "k - binade t + 52" "binade t - 52"] by simp
    also have "(2::real) powi (k - binade t + 52) = 2 ^ nat (k - binade t + 52)"
      using d by (simp add: power_int_def)
    finally have rN: "r = of_int N * ulp t"
      unfolding r N_def ulp_def by simp
    have "of_int N * ulp t \<le> t" using le rN by simp
    then have "of_int N \<le> t / ulp t" using ulp_pos[of t] by (simp only: le_divide_eq if_True)
    then have "N \<le> rne (t / ulp t)" by (rule rne_ge_int)
    then have "real_of_int N \<le> of_int (rne (t / ulp t))" by (rule iffD2[OF of_int_le_iff])
    then have "of_int N * ulp t \<le> of_int (rne (t / ulp t)) * ulp t"
      by (rule mult_right_mono[OF _ ulp_nonneg])
    then show ?thesis unfolding rN fl_pos[OF t] .
  qed
qed

lemma fl_literal: "fl 0.4 = 3602879701896397 / 2 ^ 53"
  by (simp add: fl_def binade_def bitlength.simps rne_def Let_def power_int_minus)

lemma fl_literal': "fl (2 / 5) = 3602879701896397 / 2 ^ 53"
  using fl_literal by simp

lemma fraction_nonneg:
  assumes "0 \<le> x"
  shows "0 \<le> fl (x * fl 0.4)" and "1 / 2 \<le> fl (0.5 + fl (x * fl 0.4))"
proof -
  have "0 \<le> x * fl 0.4" using assms by (simp add: fl_literal')
  then show a: "0 \<le> fl (x * fl 0.4)" by (rule fl_nonneg)
  have "(1::real) / 2 = real 1 * 2 powi (- 1)" by (simp add: power_int_minus)
  moreover have "(1::real) / 2 \<le> 0.5 + fl (x * fl 0.4)" using a by simp
  ultimately show "1 / 2 \<le> fl (0.5 + fl (x * fl 0.4))"
    by (intro fl_ge_repr[where M=1 and k="-1"]) simp_all
qed

lemma fraction_upper:
  assumes "0 \<le> x" "x < 1"
  shows "fl (0.5 + fl (x * fl 0.4))
         \<le> (1 / 2 + 3602879701896397 / 2 ^ 53 * (1 + 1 / 2 powi 53)) * (1 + 1 / 2 powi 53)"
proof -
  let ?c = "3602879701896397 / 2 ^ 53 :: real"
  let ?e = "1 + 1 / 2 powi 53 :: real"
  have e: "0 \<le> ?e" by simp
  have xc: "0 \<le> x * ?c" "x * ?c \<le> ?c" using assms by simp_all
  have "fl (x * ?c) \<le> x * ?c * ?e" by (rule fl_upper[OF xc(1)])
  also have "\<dots> \<le> ?c * ?e" by (rule mult_right_mono[OF xc(2) e])
  finally have a: "fl (x * fl 0.4) \<le> ?c * ?e" unfolding fl_literal .
  have a0: "0 \<le> fl (x * fl 0.4)" by (rule fraction_nonneg(1)[OF assms(1)])
  then have s0: "0 \<le> 0.5 + fl (x * fl 0.4)" by simp
  have "fl (0.5 + fl (x * fl 0.4)) \<le> (0.5 + fl (x * fl 0.4)) * ?e" by (rule fl_upper[OF s0])
  also have "\<dots> \<le> (0.5 + ?c * ?e) * ?e" using a by (intro mult_right_mono[OF _ e]) simp
  finally show ?thesis by simp
qed

lemma cut_point_upper:
  assumes "0 \<le> x" "x < 1"
  shows "real_of_int (cut_point n x) \<le> real n * (9 / 10 + 1 / 2 ^ 51)"
proof -
  let ?c = "3602879701896397 / 2 ^ 53 :: real"
  let ?e = "1 + 1 / 2 powi 53 :: real"
  let ?f = "fl (0.5 + fl (x * fl 0.4))"
  have e: "0 \<le> ?e" by simp
  have f0: "0 \<le> ?f" using fraction_nonneg(2)[OF assms(1)] by simp
  then have y0: "0 \<le> real n * ?f" by simp
  have "real_of_int (cut_point n x) \<le> fl (real n * ?f)" unfolding cut_point_def by simp
  also have "\<dots> \<le> real n * ?f * ?e" by (rule fl_upper[OF y0])
  also have "\<dots> \<le> real n * ((1 / 2 + ?c * ?e) * ?e) * ?e"
    by (intro mult_right_mono[OF _ e] mult_left_mono fraction_upper[OF assms]) simp
  also have "\<dots> = real n * ((1 / 2 + ?c * ?e) * ?e * ?e)" by (simp only: mult.assoc)
  also have "\<dots> \<le> real n * (9 / 10 + 1 / 2 ^ 51)"
    by (intro mult_left_mono) simp_all
  finally show ?thesis .
qed

lemma cut_point_nonneg: "0 \<le> x \<Longrightarrow> 0 \<le> cut_point n x"
proof -
  assume "0 \<le> x"
  then have "0 \<le> real n * fl (0.5 + fl (x * fl 0.4))" using fraction_nonneg(2)[of x] by simp
  then have "0 \<le> fl (real n * fl (0.5 + fl (x * fl 0.4)))" by (rule fl_nonneg)
  then show ?thesis unfolding cut_point_def by simp
qed

lemma cut_point_less:
  assumes "0 \<le> x" "x < 1" "0 < n"
  shows "cut_point n x < int n"
proof -
  have "real n * (9 / 10 + 1 / 2 ^ 51) < real n * 1"
    using assms(3) by (intro mult_strict_left_mono) simp_all
  with cut_point_upper[OF assms(1,2), of n] have "real_of_int (cut_point n x) < real n" by simp
  then show ?thesis by linarith
qed

lemma cut_point_band_upper:
  assumes "0 \<le> x" "x < 1" "n \<le> 2 ^ 40"
  shows "10 * cut_point n x \<le> 9 * int n"
proof -
  have "real n \<le> real (2 ^ 40)" using assms(3) by (rule iffD2[OF of_nat_le_iff])
  then have "real n * (1 / 2 ^ 51) \<le> 2 ^ 40 * (1 / 2 ^ 51)" by (intro mult_right_mono) simp_all
  then have "real n * (1 / 2 ^ 51) < 1 / 10" by simp
  with cut_point_upper[OF assms(1,2), of n]
  have "10 * real_of_int (cut_point n x) < 9 * real n + 1" by (simp add: distrib_left)
  then have "real_of_int (10 * cut_point n x) < real_of_int (9 * int n + 1)" by simp
  then have "10 * cut_point n x < 9 * int n + 1" by (rule iffD1[OF of_int_less_iff])
  then show ?thesis by simp
qed

lemma cut_point_band_lower:
  assumes "0 \<le> x" "n < 2 ^ 53"
  shows "int (n div 2) \<le> cut_point n x"
proof (cases "n div 2 = 0")
  case True
  then show ?thesis using cut_point_nonneg[OF assms(1), of n] by simp
next
  case False
  let ?f = "fl (0.5 + fl (x * fl 0.4))"
  have M: "0 < n div 2" "n div 2 < 2 ^ 53" using False assms(2) by simp_all
  have "real (2 * (n div 2)) \<le> real n" by (rule iffD2[OF of_nat_le_iff]) simp
  then have "real (n div 2) \<le> real n / 2" by simp
  also have "real n / 2 = real n * (1 / 2)" by simp
  also have "\<dots> \<le> real n * ?f"
    by (rule mult_left_mono[OF fraction_nonneg(2)[OF assms(1)]]) simp
  finally have le: "real (n div 2) \<le> real n * ?f" .
  have "real (n div 2) \<le> fl (real n * ?f)"
    by (rule fl_ge_repr[where M="n div 2" and k=0, OF M _ le]) simp
  then have "real_of_int (int (n div 2)) \<le> fl (real n * ?f)" by simp
  then show ?thesis unfolding cut_point_def by (rule iffD2[OF le_floor_iff])
qed

lemma cut_point_fraction:
  assumes "0 \<le> x" "x < 1" "n \<le> 2 ^ 40"
  shows "\<exists>f. 1 / 2 \<le> f \<and> f \<le> 9 / 10 \<and> cut_point n x = \<lfloor>real n * f\<rfloor>"
proof -
  let ?c = "cut_point n x"
  have n53: "n < 2 ^ 53" using assms(3) by (rule le_less_trans) simp
  have lo: "int (n div 2) \<le> ?c" by (rule cut_point_band_lower[OF assms(1) n53])
  have hi: "10 * ?c \<le> 9 * int n" by (rule cut_point_band_upper[OF assms])
  show ?thesis
  proof (cases "int n \<le> 2 * ?c \<and> 0 < n")
    case True
    then have n: "0 < real n" by simp
    have "1 / 2 \<le> real_of_int ?c / real n"
    proof -
      have "real_of_int (int n) \<le> real_of_int (2 * ?c)" using True by (intro iffD2[OF of_int_le_iff]) simp
      then show ?thesis using n by (simp add: field_simps)
    qed
    moreover have "real_of_int ?c / real n \<le> 9 / 10"
    proof -
      have "real_of_int (10 * ?c) \<le> real_of_int (9 * int n)" using hi by (rule iffD2[OF of_int_le_iff])
      then show ?thesis using n by (simp add: field_simps)
    qed
    moreover have "?c = \<lfloor>real n * (real_of_int ?c / real n)\<rfloor>" using n by simp
    ultimately show ?thesis by blast
  next
    case False
    then have "?c = int (n div 2)" using lo hi by arith
    moreover have "\<lfloor>real n * (1 / 2)\<rfloor> = int (n div 2)"
      by (simp add: floor_divide_of_nat_eq[where 'a=real, symmetric] del: floor_divide_of_nat_eq) 
    ultimately have "?c = \<lfloor>real n * (1 / 2)\<rfloor>" by simp
    then show ?thesis by (intro exI[of _ "1 / 2"]) simp
  qed
qed


section \<open>Properties of the unreliable channel\<close>

text \<open>
  Claim C1 says that each call of the channel has exactly one of the four outcomes. With the
  dice at 0.15 a read, and a write, both waits on the 60 second timer and delivers a cut
  content: two outcomes in one call.
\<close>

theorem stall_and_truncation_together:
  "read_outcomes ''output.json'' (dice_world 0.15) = [Stall, Truncation] \<and>
   write_outcomes ''diff.json'' ''abcd'' (dice_world 0.15) = [Stall, Truncation]"
  by (simp add: read_outcomes_def write_outcomes_def readFileFromCloud_def writeFileToCloud_def dice_world_def
      Math_random_def setTimeout_def fs_readFile_def fs_writeFile_def slice0_def
      fl_def binade_def bitlength.simps rne_def Let_def power_int_minus)

lemma slice0_cut:
  assumes "0 \<le> x" "x < 1"
  shows "slice0 s (cut_point (length s) x) = take (nat (cut_point (length s) x)) s"
    and "length (slice0 s (cut_point (length s) x)) = nat (cut_point (length s) x)"
    and "s \<noteq> [] \<Longrightarrow> slice0 s (cut_point (length s) x) \<noteq> s"
proof -
  let ?c = "cut_point (length s) x"
  have c0: "0 \<le> ?c" by (rule cut_point_nonneg[OF assms(1)])
  have c1: "?c \<le> int (length s)"
  proof (cases "s = []")
    case True
    then show ?thesis using cut_point_upper[OF assms, of 0] by simp
  next
    case False
    then show ?thesis using cut_point_less[OF assms, of "length s"] by simp
  qed
  show eq: "slice0 s ?c = take (nat ?c) s" using c0 by (simp add: slice0_def)
  show len: "length (slice0 s ?c) = nat ?c" using c0 c1 unfolding eq by simp
  show "slice0 s ?c \<noteq> s" if "s \<noteq> []"
  proof
    assume "slice0 s ?c = s"
    then have "length s = nat ?c" using len by simp
    moreover have "?c < int (length s)" using cut_point_less[OF assms, of "length s"] that by simp
    ultimately show False using c0 by linarith
  qed
qed

lemma read_fail:
  assumes "rnd w (drawn w) < 0.1"
  shows "readFileFromCloud path w = (Inl (Error ''Read failed: filesystem error''), snd (Math_random w))"
  using assms by (simp add: readFileFromCloud_def case_prod_beta)

lemma read_cut:
  assumes "\<not> rnd w (drawn w) < 0.1" "rnd w (drawn w) < 0.3" "files w path = Some raw"
  shows "readFileFromCloud path w =
    (Inr (slice0 raw (cut_point (length raw) (rnd w (Suc (drawn w))))),
     snd (Math_random (if rnd w (drawn w) < 0.2 then setTimeout 60000 (snd (Math_random w))
                       else snd (Math_random w))))"
  using assms by (simp add: readFileFromCloud_def case_prod_beta Let_def fs_readFile_def cut_point_def)

lemma read_whole:
  assumes "\<not> rnd w (drawn w) < 0.3" "files w path = Some raw"
  shows "readFileFromCloud path w = (Inr raw, snd (Math_random w))"
  using assms by (simp add: readFileFromCloud_def case_prod_beta Let_def fs_readFile_def)

lemma write_fail:
  assumes "rnd w (drawn w) < 0.1"
  shows "writeFileToCloud file data w = (Inl (Error ''Write failed: filesystem error''), snd (Math_random w))"
  using assms by (simp add: writeFileToCloud_def case_prod_beta)

lemma write_cut:
  assumes "\<not> rnd w (drawn w) < 0.1" "rnd w (drawn w) < 0.3"
  shows "writeFileToCloud file data w =
    (Inr (), fs_writeFile file (slice0 data (cut_point (length data) (rnd w (Suc (drawn w)))))
     (snd (Math_random (if rnd w (drawn w) < 0.2 then setTimeout 60000 (snd (Math_random w))
                       else snd (Math_random w)))))"
  using assms by (simp add: writeFileToCloud_def case_prod_beta Let_def cut_point_def)

lemma write_whole:
  assumes "\<not> rnd w (drawn w) < 0.3"
  shows "writeFileToCloud file data w = (Inr (), fs_writeFile file data (snd (Math_random w)))"
  using assms by (simp add: writeFileToCloud_def case_prod_beta Let_def)

lemma read_outcomes_bands:
  assumes x: "0 \<le> rnd w (Suc (drawn w))" "rnd w (Suc (drawn w)) < 1"
    and raw: "files w path = Some raw" "raw \<noteq> []"
  shows "read_outcomes path w =
     (if rnd w (drawn w) < 0.1 then [HardFailure]
      else if rnd w (drawn w) < 0.2 then [Stall, Truncation]
      else if rnd w (drawn w) < 0.3 then [Truncation]
      else [Success])"
proof -
  consider (a) "rnd w (drawn w) < 0.1" | (b) "\<not> rnd w (drawn w) < 0.1" "rnd w (drawn w) < 0.3"
    | (c) "\<not> rnd w (drawn w) < 0.3" by linarith
  then show ?thesis
  proof cases
    case a
    then show ?thesis by (simp add: read_outcomes_def read_fail)
  next
    case b
    show ?thesis
      using b slice0_cut(3)[OF x raw(2)] raw(1)
      by (simp add: read_outcomes_def read_cut[OF b raw(1)])
  next
    case c
    then have "\<not> rnd w (drawn w) < 0.1" "\<not> rnd w (drawn w) < 0.2" by linarith+
    then show ?thesis using c raw by (simp add: read_outcomes_def read_whole[OF c raw(1)])
  qed
qed

lemma write_outcomes_bands:
  assumes x: "0 \<le> rnd w (Suc (drawn w))" "rnd w (Suc (drawn w)) < 1"
    and data: "data \<noteq> []"
  shows "write_outcomes file data w =
     (if rnd w (drawn w) < 0.1 then [HardFailure]
      else if rnd w (drawn w) < 0.2 then [Stall, Truncation]
      else if rnd w (drawn w) < 0.3 then [Truncation]
      else [Success])"
proof -
  consider (a) "rnd w (drawn w) < 0.1" | (b) "\<not> rnd w (drawn w) < 0.1" "rnd w (drawn w) < 0.3"
    | (c) "\<not> rnd w (drawn w) < 0.3" by linarith
  then show ?thesis
  proof cases
    case a
    then show ?thesis by (simp add: write_outcomes_def write_fail)
  next
    case b
    show ?thesis
      using b slice0_cut(3)[OF x data]
      by (simp add: write_outcomes_def write_cut[OF b])
  next
    case c
    then have "\<not> rnd w (drawn w) < 0.1" "\<not> rnd w (drawn w) < 0.2" by linarith+
    then show ?thesis using c by (simp add: write_outcomes_def write_whole[OF c])
  qed
qed

lemma read_rerolls:
  "drawn w < drawn (snd (readFileFromCloud path w)) \<and> rnd (snd (readFileFromCloud path w)) = rnd w"
  by (simp add: readFileFromCloud_def case_prod_beta Let_def split: sum.split)

lemma write_rerolls:
  "drawn w < drawn (snd (writeFileToCloud file data w)) \<and> rnd (snd (writeFileToCloud file data w)) = rnd w"
  by (simp add: writeFileToCloud_def case_prod_beta Let_def)


text \<open>
  Claim C1, amended. On content that is not empty, one call of read or write does exactly one
  of four things, chosen by the one dice it rolls: a hard failure (dice below 0.1), a stall
  followed by a truncation (from 0.1 and below 0.2), a truncation without a stall (from 0.2 and
  below 0.3), a success (from 0.3). A stalled call is always truncated as well. Every call
  rolls a dice of its own: it reads the next unread draw and moves past it.
\<close>

theorem channel_outcome_bands:
  assumes "0 \<le> rnd w (Suc (drawn w))" and "rnd w (Suc (drawn w)) < 1"
    and "files w path = Some raw" and "raw \<noteq> []" and "data \<noteq> []"
  shows "read_outcomes path w =
           (if rnd w (drawn w) < 0.1 then [HardFailure]
            else if rnd w (drawn w) < 0.2 then [Stall, Truncation]
            else if rnd w (drawn w) < 0.3 then [Truncation]
            else [Success]) \<and>
         write_outcomes file data w =
           (if rnd w (drawn w) < 0.1 then [HardFailure]
            else if rnd w (drawn w) < 0.2 then [Stall, Truncation]
            else if rnd w (drawn w) < 0.3 then [Truncation]
            else [Success]) \<and>
         drawn w < drawn (snd (readFileFromCloud path w)) \<and>
         rnd (snd (readFileFromCloud path w)) = rnd w \<and>
         drawn w < drawn (snd (writeFileToCloud file data w)) \<and>
         rnd (snd (writeFileToCloud file data w)) = rnd w"
  using read_outcomes_bands[OF assms(1,2,3,4)] write_outcomes_bands[OF assms(1,2,5)]
    read_rerolls write_rerolls
  by simp

text \<open>The amended C1 at one dice in each of the four bands.\<close>

theorem channel_outcome_bands_witness:
  "read_outcomes ''output.json'' (dice_world 0.05) = [HardFailure] \<and>
   read_outcomes ''output.json'' (dice_world 0.15) = [Stall, Truncation] \<and>
   read_outcomes ''output.json'' (dice_world 0.25) = [Truncation] \<and>
   read_outcomes ''output.json'' (dice_world 0.5) = [Success] \<and>
   write_outcomes ''diff.json'' ''{}'' (dice_world 0.05) = [HardFailure] \<and>
   write_outcomes ''diff.json'' ''{}'' (dice_world 0.15) = [Stall, Truncation] \<and>
   write_outcomes ''diff.json'' ''{}'' (dice_world 0.25) = [Truncation] \<and>
   write_outcomes ''diff.json'' ''{}'' (dice_world 0.5) = [Success]"
proof -
  have h: "0 \<le> rnd (dice_world d) (Suc (drawn (dice_world d)))"
    "rnd (dice_world d) (Suc (drawn (dice_world d))) < 1"
    "files (dice_world d) ''output.json'' = Some ''0123456789''"
    "''0123456789'' \<noteq> []" "''{}'' \<noteq> []" for d
    by (simp_all add: dice_world_def)
  have d: "rnd (dice_world d) (drawn (dice_world d)) = d" for d
    by (simp add: dice_world_def)
  show ?thesis
    using channel_outcome_bands[OF h, of "0.05" "''diff.json''"]
      channel_outcome_bands[OF h, of "0.15" "''diff.json''"]
      channel_outcome_bands[OF h, of "0.25" "''diff.json''"]
      channel_outcome_bands[OF h, of "0.5" "''diff.json''"]
    by (simp add: d)
qed

text \<open>
  Claim C9. When the dice selects truncation, a read returns the prefix of the content of
  length \<open>Math.floor(L * (0.5 + x * 0.4))\<close>, computed in binary64 arithmetic from the length
  \<open>L\<close> of the content and the draw \<open>x\<close>, and a write stores the prefix of the data given by
  the same formula. For content of at most \<open>2 ^ 40\<close> characters this length is
  \<open>floor (L * f)\<close> for some fraction \<open>f\<close> from 50% to 90%, both included.
\<close>

theorem truncation_keeps_prefix:
  assumes "0.1 \<le> rnd w (drawn w)" and "rnd w (drawn w) < 0.3"
    and "0 \<le> rnd w (Suc (drawn w))" and "rnd w (Suc (drawn w)) < 1"
    and "files w path = Some raw"
    and "length raw \<le> 2 ^ 40" and "length data \<le> 2 ^ 40"
  shows "(let x = rnd w (Suc (drawn w));
              n = nat (cut_point (length raw) x);
              m = nat (cut_point (length data) x)
          in fst (readFileFromCloud path w) = Inr (take n raw) \<and>
             length (take n raw) = n \<and>
             (\<exists>f. 1 / 2 \<le> f \<and> f \<le> 9 / 10 \<and> int n = \<lfloor>real (length raw) * f\<rfloor>) \<and>
             fst (writeFileToCloud file data w) = Inr () \<and>
             files (snd (writeFileToCloud file data w)) file = Some (take m data) \<and>
             length (take m data) = m \<and>
             (\<exists>f. 1 / 2 \<le> f \<and> f \<le> 9 / 10 \<and> int m = \<lfloor>real (length data) * f\<rfloor>))"
proof -
  have b: "\<not> rnd w (drawn w) < 0.1" "rnd w (drawn w) < 0.3" using assms(1,2) by simp_all
  note x = assms(3,4)
  have n: "int (nat (cut_point k (rnd w (Suc (drawn w))))) = cut_point k (rnd w (Suc (drawn w)))" for k
    using cut_point_nonneg[OF x(1), of k] by simp
  show ?thesis
    unfolding Let_def read_cut[OF b assms(5)] write_cut[OF b] n
    using slice0_cut(1,2)[OF x, of raw] slice0_cut(1,2)[OF x, of data]
      cut_point_fraction[OF x assms(6)] cut_point_fraction[OF x assms(7)]
    by simp
qed

text \<open>
  The statement of C9 where the draw is one half, for ten characters read (seven are kept)
  and ninety written (62 are kept, where real arithmetic would give 63), and where the
  draw is the largest double below 1, for ten characters read (nine are kept).
\<close>

theorem truncation_keeps_prefix_witness:
  "fst (readFileFromCloud ''output.json'' (cut_world (1 / 2))) = Inr ''0123456'' \<and>
   files (snd (writeFileToCloud ''diff.json'' (replicate 90 CHR ''a'') (cut_world (1 / 2))))
     ''diff.json'' = Some (replicate 62 CHR ''a'') \<and>
   fst (readFileFromCloud ''output.json'' (cut_world (1 - 1 / 2 ^ 53))) = Inr ''012345678''"
proof -
  have h: "0.1 \<le> rnd (cut_world x) (drawn (cut_world x))"
    "rnd (cut_world x) (drawn (cut_world x)) < 0.3"
    "files (cut_world x) ''output.json'' = Some ''0123456789''"
    "length ''0123456789'' \<le> 2 ^ 40" "length (replicate 90 CHR ''a'') \<le> 2 ^ 40" for x
    by (simp_all add: cut_world_def)
  have x: "rnd (cut_world x) (Suc (drawn (cut_world x))) = x" for x
    by (simp add: cut_world_def)
  have r: "0 \<le> (1::real) / 2" "(1::real) / 2 < 1" "0 \<le> (1::real) - 1 / 2 ^ 53"
    "(1::real) - 1 / 2 ^ 53 < 1"
    by simp_all
  have l: "length ''0123456789'' = 10" "length (replicate 90 CHR ''a'') = 90" by simp_all
  have c: "cut_point 10 (1 / 2) = 7" "cut_point 90 (1 / 2) = 62" "cut_point 10 (1 - 1 / 2 ^ 53) = 9"
    by (simp_all add: cut_point_def fl_def binade_def bitlength.simps rne_def Let_def power_int_minus)
  show ?thesis
    using truncation_keeps_prefix[where w="cut_world (1 / 2)" and path="''output.json''"
        and raw="''0123456789''" and data="replicate 90 CHR ''a''" and ?file.0="''diff.json''",
        unfolded x, OF h(1,2) r(1,2) h(3,4,5), unfolded l c Let_def]
      truncation_keeps_prefix[where w="cut_world (1 - 1 / 2 ^ 53)" and path="''output.json''"
        and raw="''0123456789''" and data="replicate 90 CHR ''a''" and ?file.0="''diff.json''",
        unfolded x, OF h(1,2) r(3,4) h(3,4,5), unfolded l c Let_def]
    by simp
qed

section \<open>Properties of the retry orchestrator\<close>

lemma retry_loop_success:
  assumes att: "attempt < maxRetries"
    and ok: "attempt_outcome validator (fst (operation w)) = Inr x"
  shows "retry_loop operation maxRetries baseDelay validator attempt lastError w = (Inr x, snd (operation w))"
  using att ok by (subst retry_loop.simps) (simp add: case_prod_beta)

lemma retry_loop_last:
  assumes att: "Suc attempt = maxRetries"
    and bad: "attempt_outcome validator (fst (operation w)) = Inl e"
  shows "retry_loop operation maxRetries baseDelay validator attempt lastError w
         = (Inl (exhausted maxRetries (Some e)), snd (operation w))"
  using att bad by (subst retry_loop.simps) (auto simp add: case_prod_beta)

lemma retry_loop_again:
  assumes att: "Suc attempt < maxRetries"
    and bad: "attempt_outcome validator (fst (operation w)) = Inl e"
  shows "retry_loop operation maxRetries baseDelay validator attempt lastError w
         = retry_loop operation maxRetries baseDelay validator (Suc attempt) (Some e)
             (setTimeout (baseDelay * 2 ^ attempt + fst (Math_random (snd (operation w))) * 1000)
                (snd (Math_random (snd (operation w)))))"
  using att bad by (subst retry_loop.simps) (auto simp add: case_prod_beta Let_def)

lemma retry_loop_done:
  "\<not> attempt < maxRetries \<Longrightarrow>
   retry_loop operation maxRetries baseDelay validator attempt lastError w = (Inl (exhausted maxRetries lastError), w)"
  by (subst retry_loop.simps) simp

lemma spy_fst [simp]: "fst (spy operation w) = fst (operation w)"
  and spy_invoked [simp]: "invoked (snd (spy operation w)) = Suc (invoked (snd (operation w)))"
  by (simp_all add: spy_def case_prod_beta)


lemma spy_other [simp]:
  "slept (snd (spy operation w)) = slept (snd (operation w))"
  "drawn (snd (spy operation w)) = drawn (snd (operation w))"
  "rnd (snd (spy operation w)) = rnd (snd (operation w))"
  "files (snd (spy operation w)) = files (snd (operation w))"
  by (simp_all add: spy_def case_prod_beta)


lemma retry_loop_exhausts:
  assumes pres: "\<And>w. invoked (snd (operation w)) = invoked w"
    and fails: "\<And>w. attempt_outcome validator (fst (operation w)) = Inl (Error (msg (invoked w)))"
  shows "invoked w = attempt \<Longrightarrow> attempt < maxRetries \<Longrightarrow>
         fst (retry_loop (spy operation) maxRetries baseDelay validator attempt lastError w)
           = Inl (exhausted maxRetries (Some (Error (msg (maxRetries - 1))))) \<and>
         invoked (snd (retry_loop (spy operation) maxRetries baseDelay validator attempt lastError w)) = maxRetries"
proof (induction "maxRetries - Suc attempt" arbitrary: attempt lastError w)
  case 0
  then have last: "Suc attempt = maxRetries" by simp
  have bad: "attempt_outcome validator (fst (spy operation w)) = Inl (Error (msg attempt))"
    using fails[of w] 0 by simp
  show ?case
    unfolding retry_loop_last[where operation="spy operation" and w=w, OF last bad] using last pres[of w] 0 by auto
next
  case (Suc n)
  then have lt: "Suc attempt < maxRetries" by simp
  have bad: "attempt_outcome validator (fst (spy operation w)) = Inl (Error (msg attempt))"
    using fails[of w] Suc.prems by simp
  let ?w' = "setTimeout (baseDelay * 2 ^ attempt + fst (Math_random (snd (spy operation w))) * 1000)
                (snd (Math_random (snd (spy operation w))))"
  have inv: "invoked ?w' = Suc attempt" using Suc.prems pres[of w] by simp
  have n: "n = maxRetries - Suc (Suc attempt)" using Suc.hyps by simp
  show ?case
    unfolding retry_loop_again[where operation="spy operation" and w=w, OF lt bad]
    using Suc.hyps(1)[OF n inv lt] .
qed


lemma retry_loop_sleeps:
  assumes pres: "\<And>w. invoked (snd (operation w)) = invoked w"
    and quiet: "\<And>w. slept (snd (operation w)) = slept w"
      "\<And>w. drawn (snd (operation w)) = drawn w" "\<And>w. rnd (snd (operation w)) = rnd w"
    and fails: "\<And>w. invoked w < k \<Longrightarrow> isl (attempt_outcome validator (fst (operation w)))"
    and succ: "\<And>w. k < maxRetries \<Longrightarrow> invoked w = k \<Longrightarrow>
                 \<not> isl (attempt_outcome validator (fst (operation w)))"
  shows "invoked w = attempt \<Longrightarrow> attempt \<le> min k (maxRetries - 1) \<Longrightarrow>
         slept (snd (retry_loop (spy operation) maxRetries baseDelay validator attempt lastError w))
         = slept w @ map (\<lambda>i. baseDelay * 2 ^ i + rnd w (drawn w + i - attempt) * 1000)
                       [attempt..<min k (maxRetries - 1)]"
proof (induction "min k (maxRetries - 1) - attempt" arbitrary: attempt lastError w)
  case 0
  then have at: "attempt = min k (maxRetries - 1)" by linarith
  consider (none) "maxRetries = 0" | (good) "0 < maxRetries" "k \<le> maxRetries - 1"
    | (bad) "0 < maxRetries" "maxRetries - 1 < k" by linarith
  then show ?case
  proof cases
    case none
    then show ?thesis using at by (simp add: retry_loop_done)
  next
    case good
    then have ak: "invoked w = k" "attempt < maxRetries" using at 0 by simp_all
    have km: "k < maxRetries" using good by linarith
    from succ[OF km ak(1)] obtain x where ok: "attempt_outcome validator (fst (spy operation w)) = Inr x"
      by (cases "attempt_outcome validator (fst (operation w))") auto
    show ?thesis
      unfolding retry_loop_success[where operation="spy operation" and w=w, OF ak(2) ok]
      using at quiet by simp
  next
    case bad
    then have ak: "invoked w < k" "Suc attempt = maxRetries" using at 0 by simp_all
    from fails[OF ak(1)] obtain e where bad: "attempt_outcome validator (fst (spy operation w)) = Inl e"
      by (auto simp: isl_def)
    show ?thesis
      unfolding retry_loop_last[where operation="spy operation" and w=w, OF ak(2) bad]
      using at quiet by simp
  qed
next
  case (Suc n)
  from Suc.hyps(2) Suc.prems
  have lt: "invoked w < k" "Suc attempt < maxRetries" "Suc attempt \<le> min k (maxRetries - 1)"
    "attempt < min k (maxRetries - 1)"
    by linarith+
  from fails[OF lt(1)] obtain e where bad: "attempt_outcome validator (fst (spy operation w)) = Inl e"
    by (auto simp: isl_def)
  let ?w' = "setTimeout (baseDelay * 2 ^ attempt + fst (Math_random (snd (spy operation w))) * 1000)
                (snd (Math_random (snd (spy operation w))))"
  have inv: "invoked ?w' = Suc attempt" using Suc.prems pres[of w] by simp
  have n: "n = min k (maxRetries - 1) - Suc attempt" using Suc.hyps by simp
  have w': "slept ?w' = slept w @ [baseDelay * 2 ^ attempt + rnd w (drawn w) * 1000]"
    "drawn ?w' = Suc (drawn w)" "rnd ?w' = rnd w"
    using quiet by simp_all
  have tl: "map (\<lambda>i. baseDelay * 2 ^ i + rnd w (Suc (drawn w) + i - Suc attempt) * 1000)
              [Suc attempt..<min k (maxRetries - 1)]
          = map (\<lambda>i. baseDelay * 2 ^ i + rnd w (drawn w + i - attempt) * 1000)
              [Suc attempt..<min k (maxRetries - 1)]"
    by (rule map_cong) auto
  show ?case
    unfolding retry_loop_again[where operation="spy operation" and w=w, OF lt(2) bad]
      Suc.hyps(1)[OF n inv lt(3)] w' tl
    using lt(4) by (simp add: upt_conv_Cons)
qed




lemma digits_chars: "list_all (\<lambda>n. of_char (''0123456789'' ! n) = (48 + n :: nat)) [0..<10]"
  by (simp add: upt_rec)

lemma digit_char: "n < 10 \<Longrightarrow> of_char (''0123456789'' ! n) = (48 + n :: nat)"
  using digits_chars unfolding list_all_iff by simp

lemma decimal_value_decimal: "decimal_value (decimal n) = n"
proof (induction n rule: decimal.induct)
  case (1 n)
  show ?case
  proof (cases "n < 10")
    case True
    then show ?thesis by (subst decimal.simps) (simp add: decimal_value_def digit_char)
  next
    case False
    have m: "n mod 10 < 10" by simp
    have "decimal_value (decimal n) = 10 * decimal_value (decimal (n div 10)) + n mod 10"
      using False by (subst decimal.simps) (simp add: decimal_value_def digit_char[OF m])
    then show ?thesis using 1[OF False] by simp
  qed
qed

text \<open>
  Claim C6. An operation that fails on every invocation is invoked exactly \<open>maxAttempts\<close>
  times, and \<open>retryWithBackoff\<close> then fails with the error whose message is
  \<open>Operation failed after\<close>, the attempt count in decimal, \<open>attempts:\<close> and the message
  of the last failure (\<open>msg i\<close> is the message of the failure of invocation \<open>i\<close>, counted
  from 0). With a budget of 0 there is no invocation and no last failure, and the message
  ends in \<open>undefined\<close>. The decimal numeral in the message names the attempt count:
  read back as a number it is \<open>maxAttempts\<close>.
\<close>

theorem retryWithBackoff_exhausts:
  assumes "\<And>w. invoked (snd (operation w)) = invoked w"
    and "\<And>w. attempt_outcome validator (fst (operation w)) = Inl (Error (msg (invoked w)))"
    and "invoked w = 0"
  shows "fst (retryWithBackoff (spy operation) (Some maxAttempts) baseDelay validator w) =
           Inl (Error (''Operation failed after '' @ decimal maxAttempts @ '' attempts: '' @
                       (if maxAttempts = 0 then ''undefined'' else msg (maxAttempts - 1)))) \<and>
         invoked (snd (retryWithBackoff (spy operation) (Some maxAttempts) baseDelay validator w))
           = maxAttempts \<and>
         decimal_value (decimal maxAttempts) = maxAttempts"
proof (cases "maxAttempts = 0")
  case True
  then show ?thesis using assms(3)
    by (simp add: retryWithBackoff_def retry_loop_done exhausted_def decimal_value_decimal)
next
  case False
  then have pos: "0 < maxAttempts" by simp
  show ?thesis
    using retry_loop_exhausts[of operation validator msg w 0 maxAttempts, OF assms(1,2,3) pos] False
    by (simp add: retryWithBackoff_def exhausted_def decimal_value_decimal)
qed

text \<open>The statement of C6 for \<open>broken\<close> and the budget 3.\<close>

theorem retryWithBackoff_exhausts_witness:
  "fst (retryWithBackoff (spy broken) (Some 3) None None calm_world) =
     Inl (Error ''Operation failed after 3 attempts: boom 2'') \<and>
   invoked (snd (retryWithBackoff (spy broken) (Some 3) None None calm_world)) = 3"
proof -
  have h1: "\<And>w. invoked (snd (broken w)) = invoked w" by (simp add: broken_def)
  have h2: "\<And>w. attempt_outcome None (fst (broken w)) = Inl (Error (''boom '' @ decimal (invoked w)))"
    by (simp add: broken_def attempt_outcome_def)
  have h3: "invoked calm_world = 0" by (simp add: calm_world_def)
  show ?thesis
    using retryWithBackoff_exhausts[of broken None "\<lambda>i. ''boom '' @ decimal i" calm_world 3 None,
        OF h1 h2 h3]
    by (simp add: decimal.simps)
qed

text \<open>
  Claim C7. After an attempt with zero-based index \<open>attempt\<close> that fails with \<open>e\<close>, by a
  thrown error or a failed validation:
  \<^item> if attempts remain, the loop calls \<open>Math.random\<close>, sleeps for
    \<open>baseDelay * 2 ^ attempt\<close> plus 1000 times the number drawn, and goes on with the
    attempt \<open>attempt + 1\<close>;
  \<^item> if the attempt was the last of the budget, the loop ends in the world the operation
    left: there is no draw and no sleep;
  \<^item> the jitter, 1000 times a value of \<open>Math.random\<close> from 0 and below 1, is from 0 and
    below 1000;
  \<^item> so for an operation that fails on its first \<open>k\<close> invocations, succeeds on the next one
    if the budget reaches it, and neither sleeps nor calls \<open>Math.random\<close> itself, the sleeps
    of \<open>retryWithBackoff\<close> are exactly \<open>baseDelay * 2 ^ attempt + jitter\<close> for
    \<open>attempt = 0, 1, ...\<close> below \<open>min k (maxAttempts - 1)\<close>, in this order.
  That \<open>Math.random\<close> draws uniformly is the runtime's contract; the embedding takes its
  values as given.
\<close>

theorem backoff_delays:
  "(attempt_outcome validator (fst (operation w)) = Inl e \<and> Suc attempt < maxAttempts \<longrightarrow>
      retry_loop operation maxAttempts baseDelay validator attempt lastError w =
      retry_loop operation maxAttempts baseDelay validator (Suc attempt) (Some e)
        (setTimeout (baseDelay * 2 ^ attempt +
                       rnd (snd (operation w)) (drawn (snd (operation w))) * 1000)
           (snd (Math_random (snd (operation w)))))) \<and>
   (attempt_outcome validator (fst (operation w)) = Inl e \<and> Suc attempt = maxAttempts \<longrightarrow>
      retry_loop operation maxAttempts baseDelay validator attempt lastError w =
      (Inl (exhausted maxAttempts (Some e)), snd (operation w))) \<and>
   (0 \<le> rnd w i \<and> rnd w i < 1 \<longrightarrow> 0 \<le> rnd w i * 1000 \<and> rnd w i * 1000 < 1000) \<and>
   ((\<forall>v. invoked (snd (operation v)) = invoked v \<and> slept (snd (operation v)) = slept v \<and>
          drawn (snd (operation v)) = drawn v \<and> rnd (snd (operation v)) = rnd v) \<and>
    (\<forall>v. invoked v < k \<longrightarrow> isl (attempt_outcome validator (fst (operation v)))) \<and>
    (\<forall>v. k < maxAttempts \<and> invoked v = k \<longrightarrow>
          \<not> isl (attempt_outcome validator (fst (operation v)))) \<and>
    invoked w = 0 \<longrightarrow>
    slept (snd (retryWithBackoff (spy operation) (Some maxAttempts) (Some baseDelay) validator w))
      = slept w @ map (\<lambda>attempt. baseDelay * 2 ^ attempt + rnd w (drawn w + attempt) * 1000)
                    [0..<min k (maxAttempts - 1)])"
proof (intro conjI impI)
  assume "attempt_outcome validator (fst (operation w)) = Inl e \<and> Suc attempt < maxAttempts"
  then show "retry_loop operation maxAttempts baseDelay validator attempt lastError w =
      retry_loop operation maxAttempts baseDelay validator (Suc attempt) (Some e)
        (setTimeout (baseDelay * 2 ^ attempt +
                       rnd (snd (operation w)) (drawn (snd (operation w))) * 1000)
           (snd (Math_random (snd (operation w)))))"
    using retry_loop_again[where operation=operation and w=w and attempt=attempt
        and maxRetries=maxAttempts and validator=validator and e=e]
    by simp
next
  assume "attempt_outcome validator (fst (operation w)) = Inl e \<and> Suc attempt = maxAttempts"
  then show "retry_loop operation maxAttempts baseDelay validator attempt lastError w =
      (Inl (exhausted maxAttempts (Some e)), snd (operation w))"
    using retry_loop_last[where operation=operation and w=w and attempt=attempt
        and maxRetries=maxAttempts and validator=validator and e=e]
    by simp
next
  assume "0 \<le> rnd w i \<and> rnd w i < 1"
  then show "0 \<le> rnd w i * 1000" "rnd w i * 1000 < 1000" by simp_all
next
  assume a: "(\<forall>v. invoked (snd (operation v)) = invoked v \<and> slept (snd (operation v)) = slept v \<and>
          drawn (snd (operation v)) = drawn v \<and> rnd (snd (operation v)) = rnd v) \<and>
    (\<forall>v. invoked v < k \<longrightarrow> isl (attempt_outcome validator (fst (operation v)))) \<and>
    (\<forall>v. k < maxAttempts \<and> invoked v = k \<longrightarrow>
          \<not> isl (attempt_outcome validator (fst (operation v)))) \<and>
    invoked w = 0"
  have "slept (snd (retry_loop (spy operation) maxAttempts baseDelay validator 0 None w))
        = slept w @ map (\<lambda>i. baseDelay * 2 ^ i + rnd w (drawn w + i - 0) * 1000)
                       [0..<min k (maxAttempts - 1)]"
    by (rule retry_loop_sleeps[where k=k]) (use a in simp_all)
  then show "slept (snd (retryWithBackoff (spy operation) (Some maxAttempts) (Some baseDelay) validator w))
      = slept w @ map (\<lambda>attempt. baseDelay * 2 ^ attempt + rnd w (drawn w + attempt) * 1000)
                    [0..<min k (maxAttempts - 1)]"
    by (simp add: retryWithBackoff_def)
qed

text \<open>
  The statement of C7 for \<open>broken\<close> with a budget of 3: the step after the first failure,
  the end after the third, and the two sleeps of the whole run; and for an operation that
  fails once, which sleeps once.
\<close>

theorem backoff_delays_witness:
  "retry_loop broken 3 1000 None 0 None calm_world =
     retry_loop broken 3 1000 None (Suc 0) (Some (Error ''boom 0''))
       (calm_world\<lparr>drawn := 1, slept := [1500]\<rparr>) \<and>
   snd (retry_loop broken 3 1000 None 2 None calm_world) = calm_world \<and>
   slept (snd (retryWithBackoff (spy broken) (Some 3) (Some 1000) None calm_world))
     = [1500, 2500] \<and>
   slept (snd (retryWithBackoff (spy (flaky 1 ''ok'')) (Some 3) (Some 1000) None calm_world))
     = [1500]"
proof -
  have b: "attempt_outcome None (fst (broken calm_world)) = Inl (Error ''boom 0'')"
    by (simp add: broken_def attempt_outcome_def calm_world_def decimal.simps)
  have u: "[0..<2] = [0, Suc 0]" "[0..<Suc 0] = [0]" by (simp_all add: upt_rec)
  have step: "retry_loop broken 3 1000 None 0 None calm_world =
     retry_loop broken 3 1000 None (Suc 0) (Some (Error ''boom 0''))
       (calm_world\<lparr>drawn := 1, slept := [1500]\<rparr>)"
    using backoff_delays[where operation=broken and w=calm_world and validator=None
        and e="Error ''boom 0''" and attempt=0 and maxAttempts=3 and baseDelay=1000
        and lastError=None] b
    by (simp add: broken_def calm_world_def Math_random_def setTimeout_def)
  have final: "snd (retry_loop broken 3 1000 None 2 None calm_world) = calm_world"
    using backoff_delays[where operation=broken and w=calm_world and validator=None
        and e="Error ''boom 0''" and attempt=2 and maxAttempts=3 and baseDelay=1000
        and lastError=None] b
    by (simp add: broken_def)
  have all: "slept (snd (retryWithBackoff (spy broken) (Some 3) (Some 1000) None calm_world))
     = [1500, 2500]"
    using backoff_delays[where operation=broken and w=calm_world and validator=None
        and k=3 and maxAttempts=3 and baseDelay=1000]
    by (simp add: broken_def attempt_outcome_def calm_world_def u)
  have once: "slept (snd (retryWithBackoff (spy (flaky 1 ''ok'')) (Some 3) (Some 1000) None calm_world))
     = [1500]"
    using backoff_delays[where operation="flaky 1 ''ok''" and w=calm_world and validator=None
        and k=1 and maxAttempts=3 and baseDelay=1000]
    by (simp add: flaky_def attempt_outcome_def calm_world_def u)
  show ?thesis using step final all once by simp
qed

section \<open>Properties of the enrichment orchestrator\<close>









end
